theory Spec2Isabelle
  imports Complex_Main
begin

section \<open>The connection cache of utils.helper.ts\<close>

text \<open>
  \<^verbatim>\<open>globalThis.CACHED_CONNECTIONS\<close> is an object indexed by data source id. Its
  declaration is outside this file; it is taken as a finite map from identifiers to
  entries (every identifier an ordinary own property), empty at process start.
  An entry is the object literal \<^verbatim>\<open>{ connection, updatedAt }\<close>. A \<^verbatim>\<open>Date\<close> is
  modelled by its time value, an integer number of milliseconds since the epoch.
\<close>

record 'h cache_entry =
  connection :: 'h
  updatedAt :: int

type_synonym 'h connection_cache = "string \<rightharpoonup> 'h cache_entry"

text \<open>What the promise of \<^verbatim>\<open>getCachedConnection\<close> resolves to.\<close>

datatype 'h js_result = Null | Undefined | Value 'h

definition absent :: "'h js_result \<Rightarrow> bool" where
  "absent r = (r = Null \<or> r = Undefined)"

text \<open>
  \<^verbatim>\<open>
  export async function cacheConnection(dataSourceId: string, connection: any): Promise<any> {
    const updatedAt = new Date();
    globalThis.CACHED_CONNECTIONS[dataSourceId] = { connection, updatedAt };
  }
  \<close>
  The clock read by \<^verbatim>\<open>new Date()\<close> is the first argument \<open>now\<close>; the function
  returns the cache after the assignment.
\<close>

definition cacheConnection ::
  "int \<Rightarrow> string \<Rightarrow> 'h \<Rightarrow> 'h connection_cache \<Rightarrow> 'h connection_cache" where
  "cacheConnection now dataSourceId conn cache =
     cache(dataSourceId \<mapsto> \<lparr>connection = conn, updatedAt = now\<rparr>)"

text \<open>
  \<^verbatim>\<open>new Date(x || null).getTime()\<close>: an absent (or falsy) argument gives the epoch,
  a \<^verbatim>\<open>Date\<close> gives its own time value.
\<close>

definition date_or_epoch :: "int option \<Rightarrow> int" where
  "date_or_epoch x = (case x of None \<Rightarrow> 0 | Some ms \<Rightarrow> ms)"

text \<open>
  \<^verbatim>\<open>(cachedAt.getTime() - updatedAt.getTime()) / 1000\<close>, in seconds. The code
  computes it in doubles and only tests its sign, which is the sign of the exact
  quotient taken here.
\<close>

definition diffTime :: "int \<Rightarrow> int \<Rightarrow> real" where
  "diffTime cachedAt dsUpdatedAt = (real_of_int cachedAt - real_of_int dsUpdatedAt) / 1000"

text \<open>
  \<^verbatim>\<open>
  export async function getCachedConnection(dataSourceId, dataSourceUpdatedAt): Promise<any> {
    const cachedData = globalThis.CACHED_CONNECTIONS[dataSourceId] || {};
    if (cachedData) {
      const updatedAt = new Date(dataSourceUpdatedAt || null);
      const cachedAt = new Date(cachedData.updatedAt || null);
      const diffTime = (cachedAt.getTime() - updatedAt.getTime()) / 1000;
      if (diffTime < 0) {
        return null;
      } else {
        return cachedData['connection'];
      }
    }
  }
  \<close>
  \<open>cachedData = None\<close> stands for the fallback object \<^verbatim>\<open>{}\<close>, which is truthy and has
  neither field. The function returns its result together with the cache it leaves.
\<close>

definition getCachedConnection ::
  "string \<Rightarrow> int option \<Rightarrow> 'h connection_cache \<Rightarrow> 'h js_result \<times> 'h connection_cache" where
  "getCachedConnection dataSourceId dataSourceUpdatedAt cache =
     (let cachedData = cache dataSourceId;
          dsUpdatedAt = date_or_epoch dataSourceUpdatedAt;
          cachedAt = date_or_epoch (map_option updatedAt cachedData)
      in if diffTime cachedAt dsUpdatedAt < 0 then (Null, cache)
         else (case cachedData of
                 None \<Rightarrow> (Undefined, cache)
               | Some entry \<Rightarrow> (Value (connection entry), cache)))"

text \<open>A sequence of \<^verbatim>\<open>cacheConnection\<close> calls, each with the clock at its time.\<close>

fun cacheConnections ::
  "(int \<times> string \<times> 'h) list \<Rightarrow> 'h connection_cache \<Rightarrow> 'h connection_cache" where
  "cacheConnections [] cache = cache"
| "cacheConnections ((now, dataSourceId, conn) # calls) cache =
     cacheConnections calls (cacheConnection now dataSourceId conn cache)"

section \<open>The dotted-version comparison of utils.helper.ts\<close>

text \<open>
  A JavaScript string is a sequence of UTF-16 code units. A \<^typ>\<open>char\<close> stands for the
  code unit of the same number, so the strings of the model are those over the code
  units 0 to 255.
\<close>

datatype error = TypeError

text \<open>
  \<^verbatim>\<open>s.split(sep)\<close> for a separator of one character: the pieces between the
  separators, in order; there is always at least one piece. (The first branch of the
  \<open>case\<close> is never taken, the result of a split being non-empty.)
\<close>

fun str_split :: "char \<Rightarrow> string \<Rightarrow> string list" where
  "str_split sep [] = [[]]"
| "str_split sep (c # cs) =
     (if c = sep then [] # str_split sep cs
      else (case str_split sep cs of
              [] \<Rightarrow> [[c]]
            | p # ps \<Rightarrow> (c # p) # ps))"

subsection \<open>\<^verbatim>\<open>Number\<close> applied to a segment\<close>

text \<open>
  \<^verbatim>\<open>Number(seg)\<close> reads \<open>seg\<close> by the grammar \<^verbatim>\<open>StringNumericLiteral\<close> of
  ECMAScript. The segments that \<^verbatim>\<open>isVersionGreaterThanOrEqual\<close> passes to it
  contain neither \<^verbatim>\<open>-\<close> nor \<^verbatim>\<open>.\<close> (lemma \<open>segment_chars\<close> below), so the
  productions with a minus sign or a decimal point are left out; what remains has a
  non-negative integer, or infinity, as mathematical value. The values \<^verbatim>\<open>Number\<close>
  can return on a segment are therefore \<^verbatim>\<open>NaN\<close>, a non-negative integer (every finite
  double from \<open>2^53\<close> on is one) and \<^verbatim>\<open>Infinity\<close>.
\<close>

datatype js_number = NaN | Finite nat | PosInfinity

definition is_digit :: "char \<Rightarrow> bool" where
  "is_digit c = (48 \<le> (of_char c :: nat) \<and> (of_char c :: nat) \<le> 57)"

text \<open>
  \<^verbatim>\<open>StrWhiteSpaceChar\<close> among the code units below 256: TAB, LF, VT, FF, CR, SP and
  NBSP.
\<close>

definition is_js_space :: "char \<Rightarrow> bool" where
  "is_js_space c = ((of_char c :: nat) \<in> {9, 10, 11, 12, 13, 32, 160})"

definition trim_js :: "string \<Rightarrow> string" where
  "trim_js s = rev (dropWhile is_js_space (rev (dropWhile is_js_space s)))"

text \<open>The value of a digit, letters counting from ten in either case; 36 for any other character.\<close>

definition digit_value :: "char \<Rightarrow> nat" where
  "digit_value c =
     (let n = of_char c
      in if 48 \<le> n \<and> n \<le> 57 then n - 48
         else if 97 \<le> n \<and> n \<le> 102 then n - 87
         else if 65 \<le> n \<and> n \<le> 70 then n - 55
         else 36)"

definition is_digit_of :: "nat \<Rightarrow> char \<Rightarrow> bool" where
  "is_digit_of base c = (digit_value c < base)"

definition digits_value :: "nat \<Rightarrow> string \<Rightarrow> nat" where
  "digits_value base s = foldl (\<lambda>acc c. acc * base + digit_value c) 0 s"

text \<open>The mathematical value of a literal.\<close>

datatype mv = MV nat | MVInfinity

text \<open>
  \<^verbatim>\<open>StrUnsignedDecimalLiteral\<close> without a decimal point:
  \<^verbatim>\<open>Infinity\<close>, or decimal digits with an optional exponent part, the exponent
  being digits with an optional \<^verbatim>\<open>+\<close>.
\<close>

definition StrUnsignedDecimalLiteral :: "string \<Rightarrow> mv option" where
  "StrUnsignedDecimalLiteral s =
     (if s = ''Infinity'' then Some MVInfinity
      else
        let ds = takeWhile is_digit s; rest = dropWhile is_digit s
        in if ds = [] then None
           else (case rest of
                   [] \<Rightarrow> Some (MV (digits_value 10 ds))
                 | e # ex \<Rightarrow>
                     if e = CHR ''e'' \<or> e = CHR ''E'' then
                       (let xs = (case ex of [] \<Rightarrow> [] | c # cs \<Rightarrow> if c = CHR ''+'' then cs else ex)
                        in if xs \<noteq> [] \<and> list_all is_digit xs
                           then Some (MV (digits_value 10 ds * 10 ^ digits_value 10 xs))
                           else None)
                     else None))"

text \<open>\<^verbatim>\<open>StrDecimalLiteral\<close>: an optional \<^verbatim>\<open>+\<close> before the unsigned literal.\<close>

definition StrDecimalLiteral :: "string \<Rightarrow> mv option" where
  "StrDecimalLiteral s =
     (case s of
        [] \<Rightarrow> None
      | c # cs \<Rightarrow> if c = CHR ''+'' then StrUnsignedDecimalLiteral cs
                  else StrUnsignedDecimalLiteral s)"

text \<open>
  \<^verbatim>\<open>NonDecimalIntegerLiteral\<close>: \<^verbatim>\<open>0b\<close>, \<^verbatim>\<open>0o\<close> or \<^verbatim>\<open>0x\<close> (the letter in
  either case) followed by at least one digit of that base; no sign.
\<close>

definition NonDecimalIntegerLiteral :: "string \<Rightarrow> mv option" where
  "NonDecimalIntegerLiteral s =
     (case s of
        z # x # ds \<Rightarrow>
          (let base = (if x = CHR ''b'' \<or> x = CHR ''B'' then 2
                       else if x = CHR ''o'' \<or> x = CHR ''O'' then 8
                       else if x = CHR ''x'' \<or> x = CHR ''X'' then 16
                       else 0)
           in if z = CHR ''0'' \<and> ds \<noteq> [] \<and> list_all (is_digit_of base) ds
              then Some (MV (digits_value base ds)) else None)
      | _ \<Rightarrow> None)"

text \<open>
  The double nearest to a non-negative integer, ties going to the even significand:
  integers below \<open>2^53\<close> are doubles; a larger one is rounded to 53 significant bits,
  and to \<^verbatim>\<open>Infinity\<close> when that reaches \<open>2^1024\<close>. (For a decimal literal of more than
  20 significant digits ECMAScript lets the implementation pick between two
  neighbours; the correctly rounded one, which V8 returns, is taken.)
\<close>

fun bit_length :: "nat \<Rightarrow> nat" where
  "bit_length n = (if n = 0 then 0 else Suc (bit_length (n div 2)))"

declare bit_length.simps [simp del]

definition round_to_double :: "nat \<Rightarrow> js_number" where
  "round_to_double n =
     (if n < 2 ^ 53 then Finite n
      else
        let e = bit_length n - 53;
            q = n div 2 ^ e;
            r = n mod 2 ^ e;
            half = 2 ^ (e - 1);
            q' = (if half < r \<or> (r = half \<and> odd q) then q + 1 else q);
            m = q' * 2 ^ e
        in if 2 ^ 1024 \<le> m then PosInfinity else Finite m)"

definition number_value :: "mv \<Rightarrow> js_number" where
  "number_value v = (case v of MV n \<Rightarrow> round_to_double n | MVInfinity \<Rightarrow> PosInfinity)"

text \<open>
  \<^verbatim>\<open>Number(seg)\<close>: white space is trimmed; the empty string is 0; a numeric literal
  is its value as a double; anything else is \<^verbatim>\<open>NaN\<close>.
\<close>

definition Number :: "string \<Rightarrow> js_number" where
  "Number s =
     (let t = trim_js s
      in if t = [] then Finite 0
         else (case StrDecimalLiteral t of
                 Some v \<Rightarrow> number_value v
               | None \<Rightarrow>
                   (case NonDecimalIntegerLiteral t of
                      Some v \<Rightarrow> number_value v
                    | None \<Rightarrow> NaN)))"

subsection \<open>The comparison\<close>

text \<open>
  \<^verbatim>\<open>+parts[i] || 0\<close>: an index past the end reads \<^verbatim>\<open>undefined\<close>, which \<^verbatim>\<open>+\<close>
  turns into \<^verbatim>\<open>NaN\<close>; \<^verbatim>\<open>NaN\<close> and 0 are falsy and give 0.
\<close>

definition part_or_zero :: "js_number list \<Rightarrow> nat \<Rightarrow> js_number" where
  "part_or_zero parts i =
     (if i < length parts then (case parts ! i of NaN \<Rightarrow> Finite 0 | x \<Rightarrow> x) else Finite 0)"

text \<open>\<^verbatim>\<open><\<close> on numbers; a comparison with \<^verbatim>\<open>NaN\<close> is false.\<close>

fun js_less :: "js_number \<Rightarrow> js_number \<Rightarrow> bool" where
  "js_less (Finite a) (Finite b) = (a < b)"
| "js_less (Finite a) PosInfinity = True"
| "js_less _ _ = False"

text \<open>
  \<^verbatim>\<open>
  for (let i = 0; i < Math.max(v1Parts.length, v2Parts.length); i++) {
    const v1Part = +v1Parts[i] || 0;
    const v2Part = +v2Parts[i] || 0;
    if (v1Part < v2Part) {
      return false;
    } else if (v1Part > v2Part) {
      return true;
    }
  }
  return true;
  \<close>
  The loop from index \<open>i\<close> on.
\<close>

function compare_parts :: "js_number list \<Rightarrow> js_number list \<Rightarrow> nat \<Rightarrow> bool" where
  "compare_parts v1Parts v2Parts i =
     (if i < max (length v1Parts) (length v2Parts) then
        (let v1Part = part_or_zero v1Parts i;
             v2Part = part_or_zero v2Parts i
         in if js_less v1Part v2Part then False
            else if js_less v2Part v1Part then True
            else compare_parts v1Parts v2Parts (i + 1))
      else True)"
  by pat_completeness auto
termination
  by (relation "measure (\<lambda>(v1Parts, v2Parts, i). max (length v1Parts) (length v2Parts) - i)") auto

declare compare_parts.simps [simp del]

text \<open>
  \<^verbatim>\<open>
  export function isVersionGreaterThanOrEqual(version1: string, version2: string) {
    if (!version1) return false;
    const v1Parts = version1.split('-')[0].split('.').map(Number);
    const v2Parts = version2.split('-')[0].split('.').map(Number);
    ...
  }
  \<close>
  \<^verbatim>\<open>split('-')[0]\<close> is the first piece, \<^verbatim>\<open>map(Number)\<close> applies \<^verbatim>\<open>Number\<close> to
  each piece (the index and array that \<^verbatim>\<open>map\<close> also passes are ignored by it).
  An argument is a string or absent (\<^verbatim>\<open>undefined\<close> or \<^verbatim>\<open>null\<close>, here \<open>None\<close>).
  An absent or empty \<open>version1\<close> is falsy. Calling \<^verbatim>\<open>split\<close> on an absent
  \<open>version2\<close> raises a \<^verbatim>\<open>TypeError\<close>.
\<close>

definition isVersionGreaterThanOrEqual :: "string option \<Rightarrow> string option \<Rightarrow> error + bool" where
  "isVersionGreaterThanOrEqual version1 version2 =
     (case version1 of
        None \<Rightarrow> Inr False
      | Some v1 \<Rightarrow>
          if v1 = [] then Inr False
          else
            let v1Parts = map Number (str_split CHR ''.'' (hd (str_split CHR ''-'' v1)))
            in (case version2 of
                  None \<Rightarrow> Inl TypeError
                | Some v2 \<Rightarrow>
                    let v2Parts = map Number (str_split CHR ''.'' (hd (str_split CHR ''-'' v2)))
                    in Inr (compare_parts v1Parts v2Parts 0)))"

subsection \<open>The comparison as the specification words it\<close>

text \<open>
  Section 4.2 of the specification, \<open>compareDottedVersions\<close>: strip any \<^verbatim>\<open>-suffix\<close>,
  split on \<^verbatim>\<open>.\<close>, coerce each segment to an integer (non-numeric gives 0), walk the
  segments up to the longer length with missing trailing segments as 0, return
  \<open>v1segment > v2segment\<close> at the first difference and true when there is none; false
  at once when \<open>v1\<close> is empty or absent. A segment is read as numeric when it is a
  non-empty string of decimal digits, and then denotes that integer.
\<close>

definition spec_strip_suffix :: "string \<Rightarrow> string" where
  "spec_strip_suffix v = takeWhile (\<lambda>c. c \<noteq> CHR ''-'') v"

definition spec_segment_value :: "string \<Rightarrow> nat" where
  "spec_segment_value seg =
     (if seg \<noteq> [] \<and> list_all is_digit seg then digits_value 10 seg else 0)"

definition spec_segments :: "string \<Rightarrow> nat list" where
  "spec_segments v = map spec_segment_value (str_split CHR ''.'' (spec_strip_suffix v))"

definition zero_padded :: "nat \<Rightarrow> nat list \<Rightarrow> nat list" where
  "zero_padded n xs = xs @ replicate (n - length xs) 0"

fun first_difference_gt :: "nat list \<Rightarrow> nat list \<Rightarrow> bool" where
  "first_difference_gt (a # as) (b # bs) = (if a \<noteq> b then a > b else first_difference_gt as bs)"
| "first_difference_gt _ _ = True"

definition spec_compareDottedVersions :: "string option \<Rightarrow> string \<Rightarrow> bool" where
  "spec_compareDottedVersions v1 v2 =
     (case v1 of
        None \<Rightarrow> False
      | Some s1 \<Rightarrow>
          if s1 = [] then False
          else
            let a = spec_segments s1;
                b = spec_segments v2;
                n = max (length a) (length b)
            in first_difference_gt (zero_padded n a) (zero_padded n b))"

text \<open>
  The segments on which the two readings of a segment can be compared: strings of
  decimal digits (the empty one included) denoting at most \<open>2^53\<close>, and strings that
  \<^verbatim>\<open>Number\<close> does not read as a number.
\<close>

definition plain_segment :: "string \<Rightarrow> bool" where
  "plain_segment seg =
     ((list_all is_digit seg \<and> digits_value 10 seg \<le> 2 ^ 53) \<or> Number seg = NaN)"

definition plain_version :: "string \<Rightarrow> bool" where
  "plain_version v = list_all plain_segment (str_split CHR ''.'' (hd (str_split CHR ''-'' v)))"

subsection \<open>The comparison with the coercion of the code\<close>

text \<open>
  The algorithm of section 4.2 again, with the coercion that the code applies in place
  of the reading of a segment as an integer: a segment has the value \<^verbatim>\<open>Number\<close> gives
  it, and 0 when \<^verbatim>\<open>Number\<close> cannot read it (\<^verbatim>\<open>NaN\<close>). The walk is over the two
  lists of values, the shorter padded with 0.
\<close>

definition number_or_zero :: "string \<Rightarrow> js_number" where
  "number_or_zero seg = (if Number seg = NaN then Finite 0 else Number seg)"

definition lenient_segments :: "string \<Rightarrow> js_number list" where
  "lenient_segments v = map number_or_zero (str_split CHR ''.'' (spec_strip_suffix v))"

definition zero_padded_js :: "nat \<Rightarrow> js_number list \<Rightarrow> js_number list" where
  "zero_padded_js n xs = xs @ replicate (n - length xs) (Finite 0)"

fun first_difference_js :: "js_number list \<Rightarrow> js_number list \<Rightarrow> bool" where
  "first_difference_js (a # as) (b # bs) =
     (if a \<noteq> b then js_less b a else first_difference_js as bs)"
| "first_difference_js _ _ = True"

definition lenient_compareDottedVersions :: "string option \<Rightarrow> string \<Rightarrow> bool" where
  "lenient_compareDottedVersions v1 v2 =
     (case v1 of
        None \<Rightarrow> False
      | Some s1 \<Rightarrow>
          if s1 = [] then False
          else
            let a = lenient_segments s1;
                b = lenient_segments v2;
                n = max (length a) (length b)
            in first_difference_js (zero_padded_js n a) (zero_padded_js n b))"

text \<open>
  A version string \<open>v'\<close> is \<open>v\<close> with unreadable segments zeroed when, after the
  \<^verbatim>\<open>-suffix\<close> is stripped, the two have the same number of segments and each segment
  of \<open>v'\<close> is the segment of \<open>v\<close> at its place, or is \<^verbatim>\<open>0\<close> where \<^verbatim>\<open>Number\<close> cannot
  read the segment of \<open>v\<close>.
\<close>

definition same_or_zeroed :: "string \<Rightarrow> string \<Rightarrow> bool" where
  "same_or_zeroed seg seg' = (seg' = seg \<or> (Number seg = NaN \<and> seg' = ''0''))"

definition zeroed_version :: "string \<Rightarrow> string \<Rightarrow> bool" where
  "zeroed_version v v' =
     list_all2 same_or_zeroed (str_split CHR ''.'' (spec_strip_suffix v))
                              (str_split CHR ''.'' (spec_strip_suffix v'))"

text \<open>The index \<open>i\<close> of a list of numbers, 0 past its end.\<close>

definition nth_or_zero_js :: "js_number list \<Rightarrow> nat \<Rightarrow> js_number" where
  "nth_or_zero_js xs i = (if i < length xs then xs ! i else Finite 0)"

text \<open>The index \<open>i\<close> of a list of segment values, 0 past its end.\<close>

definition nth_or_zero :: "nat list \<Rightarrow> nat \<Rightarrow> nat" where
  "nth_or_zero xs i = (if i < length xs then xs ! i else 0)"

section \<open>The semantic-version helpers of utils.helper.ts\<close>

text \<open>
  \<^verbatim>\<open>extractMajorVersion\<close> and \<^verbatim>\<open>checkVersionCompatibility\<close> are one line each over
  \<^verbatim>\<open>semver.coerce\<close>, \<^verbatim>\<open>semver.valid\<close> and \<^verbatim>\<open>semver.gte\<close> of the npm package
  \<^verbatim>\<open>semver\<close>, whose code is not under src/. Those three are modelled from section 4.2
  of the specification; where the specification leaves a detail open (which digits are
  picked, which versions are not recognisable), the model takes the behaviour of the
  package, release 7.
\<close>

text \<open>
  Modelled from the spec: the package's constants \<^verbatim>\<open>MAX_SAFE_COMPONENT_LENGTH\<close> (the
  longest run of digits coercion accepts as a component) and \<^verbatim>\<open>MAX_SAFE_INTEGER\<close>
  (the largest component of a version, \<open>2^53 - 1\<close>).
\<close>

definition MAX_SAFE_COMPONENT_LENGTH :: nat where
  "MAX_SAFE_COMPONENT_LENGTH = 16"

definition MAX_SAFE_INTEGER :: nat where
  "MAX_SAFE_INTEGER = 9007199254740991"

text \<open>
  Modelled from the spec: the package's class \<^verbatim>\<open>SemVer\<close>, as far as coerced versions
  go: "a normalized major.minor.patch", the pre-release and build metadata being
  discarded by coercion.
\<close>

record SemVer =
  major :: nat
  minor :: nat
  patch :: nat

text \<open>
  Modelled from the spec: the first step of \<^verbatim>\<open>semver.coerce\<close>, which finds the major
  component of "a loose version string (e.g. v2.1, 2.1.3-beta)": the leftmost maximal
  run of decimal digits that is at most 16 long (in the package, the match of
  \<^verbatim>\<open>(^|[^\d])(\d{1,16})\<close> that can be completed). The result is the run and what
  follows it; \<open>None\<close> when there is no such run.
\<close>

function coerce_major :: "string \<Rightarrow> (string \<times> string) option" where
  "coerce_major [] = None"
| "coerce_major (c # cs) =
     (if is_digit c then
        (if length (takeWhile is_digit (c # cs)) \<le> MAX_SAFE_COMPONENT_LENGTH
         then Some (takeWhile is_digit (c # cs), dropWhile is_digit (c # cs))
         else coerce_major (dropWhile is_digit cs))
      else coerce_major cs)"
  by pat_completeness auto
termination
  by (relation "measure length") (auto simp: length_dropWhile_le less_Suc_eq_le)

declare coerce_major.simps [simp del]

text \<open>
  Modelled from the spec: the minor and the patch component of \<^verbatim>\<open>semver.coerce\<close>, each
  a dot followed by a maximal run of 1 to 16 digits (in the package,
  \<^verbatim>\<open>(?:\.(\d{1,16}))?\<close>).
\<close>

definition coerce_next :: "string \<Rightarrow> (string \<times> string) option" where
  "coerce_next s =
     (case s of
        [] \<Rightarrow> None
      | c # cs \<Rightarrow>
          if c = CHR ''.'' \<and> takeWhile is_digit cs \<noteq> []
             \<and> length (takeWhile is_digit cs) \<le> MAX_SAFE_COMPONENT_LENGTH
          then Some (takeWhile is_digit cs, dropWhile is_digit cs)
          else None)"

text \<open>
  Modelled from the spec: the package's numeric identifier, \<^verbatim>\<open>0|[1-9]\d*\<close>: decimal
  digits without a leading zero.
\<close>

definition numeric_identifier :: "string \<Rightarrow> bool" where
  "numeric_identifier s = (s = ''0'' \<or> (s \<noteq> [] \<and> list_all is_digit s \<and> hd s \<noteq> CHR ''0''))"

text \<open>
  Modelled from the spec: the package's \<^verbatim>\<open>parse\<close> on the string
  \<^verbatim>\<open>major.minor.patch\<close> that \<^verbatim>\<open>semver.coerce\<close> builds: null ("cannot be coerced to
  any recognizable numeric version") unless the three components are numeric
  identifiers of at most \<^verbatim>\<open>MAX_SAFE_INTEGER\<close>.
\<close>

definition semver_parse_main :: "string \<Rightarrow> string \<Rightarrow> string \<Rightarrow> SemVer option" where
  "semver_parse_main ma mi pa =
     (if numeric_identifier ma \<and> numeric_identifier mi \<and> numeric_identifier pa
         \<and> digits_value 10 ma \<le> MAX_SAFE_INTEGER
         \<and> digits_value 10 mi \<le> MAX_SAFE_INTEGER
         \<and> digits_value 10 pa \<le> MAX_SAFE_INTEGER
      then Some \<lparr>major = digits_value 10 ma, minor = digits_value 10 mi, patch = digits_value 10 pa\<rparr>
      else None)"

text \<open>
  Modelled from the spec: \<^verbatim>\<open>semver.coerce\<close>, "coerces a loose version string to a
  normalized major.minor.patch, discarding pre-release/build metadata; null if the
  input cannot be coerced to any recognizable numeric version". A missing minor or
  patch component is 0; the patch component is looked for only after a minor one.
\<close>

definition semver_coerce :: "string \<Rightarrow> SemVer option" where
  "semver_coerce version =
     (case coerce_major version of
        None \<Rightarrow> None
      | Some (ma, rest) \<Rightarrow>
          (case coerce_next rest of
             None \<Rightarrow> semver_parse_main ma ''0'' ''0''
           | Some (mi, rest') \<Rightarrow>
               (case coerce_next rest' of
                  None \<Rightarrow> semver_parse_main ma mi ''0''
                | Some (pa, _) \<Rightarrow> semver_parse_main ma mi pa)))"

text \<open>
  Modelled from the spec: the decimal numeral of a component, as JavaScript prints an
  integer below \<open>2^53\<close>.
\<close>

fun show_nat :: "nat \<Rightarrow> string" where
  "show_nat n =
     (if n < 10 then [char_of (48 + n)]
      else show_nat (n div 10) @ [char_of (48 + n mod 10)])"

declare show_nat.simps [simp del]

text \<open>
  Modelled from the spec: the field \<^verbatim>\<open>version\<close> of a \<^verbatim>\<open>SemVer\<close>, the "normalized
  major.minor.patch string".
\<close>

definition format :: "SemVer \<Rightarrow> string" where
  "format v = show_nat (major v) @ ''.'' @ show_nat (minor v) @ ''.'' @ show_nat (patch v)"

text \<open>
  Modelled from the spec: \<^verbatim>\<open>semver.valid\<close> on the result of a coercion: the
  normalized string of a version, null for null.
\<close>

definition semver_valid :: "SemVer option \<Rightarrow> string option" where
  "semver_valid v = (case v of None \<Rightarrow> None | Some sv \<Rightarrow> Some (format sv))"

text \<open>
  \<^verbatim>\<open>
  export function extractMajorVersion(version) {
    return semver.valid(semver.coerce(version));
  }
  \<close>
\<close>

definition extractMajorVersion :: "string \<Rightarrow> string option" where
  "extractMajorVersion version = semver_valid (semver_coerce version)"

text \<open>
  Modelled from the spec: the comparison behind \<^verbatim>\<open>semver.gte\<close>, "standard
  semantic-version precedence (major, then minor, then patch)", the way the package
  computes it: components are compared as numbers to -1, 0 or 1, the first non-zero
  result of major, minor and patch decides, and two versions with the same normalized
  string compare as 0 at once. Coerced versions carry no pre-release identifiers, so
  their comparison adds nothing.
\<close>

definition compareIdentifiers :: "nat \<Rightarrow> nat \<Rightarrow> int" where
  "compareIdentifiers a b = (if a = b then 0 else if a < b then - 1 else 1)"

definition compareMain :: "SemVer \<Rightarrow> SemVer \<Rightarrow> int" where
  "compareMain this other =
     (if compareIdentifiers (major this) (major other) \<noteq> 0
      then compareIdentifiers (major this) (major other)
      else if compareIdentifiers (minor this) (minor other) \<noteq> 0
      then compareIdentifiers (minor this) (minor other)
      else compareIdentifiers (patch this) (patch other))"

definition semver_compare :: "SemVer \<Rightarrow> SemVer \<Rightarrow> int" where
  "semver_compare this other =
     (if format other = format this then 0 else compareMain this other)"

text \<open>
  Modelled from the spec: \<^verbatim>\<open>semver.gte\<close>, true when the comparison is not negative.
  The specification gives no result for an operand that is null; the package raises a
  \<^verbatim>\<open>TypeError\<close> there.
\<close>

definition semver_gte :: "SemVer option \<Rightarrow> SemVer option \<Rightarrow> error + bool" where
  "semver_gte a b =
     (case a of
        None \<Rightarrow> Inl TypeError
      | Some x \<Rightarrow>
          (case b of
             None \<Rightarrow> Inl TypeError
           | Some y \<Rightarrow> Inr (0 \<le> semver_compare x y)))"

text \<open>
  \<^verbatim>\<open>
  export function checkVersionCompatibility(importingVersion) {
    return semver.gte(semver.coerce(globalThis.TOOLJET_VERSION), semver.coerce(importingVersion));
  }
  \<close>
  The running version \<^verbatim>\<open>globalThis.TOOLJET_VERSION\<close> is the first argument.
\<close>

definition checkVersionCompatibility :: "string \<Rightarrow> string \<Rightarrow> error + bool" where
  "checkVersionCompatibility TOOLJET_VERSION importingVersion =
     semver_gte (semver_coerce TOOLJET_VERSION) (semver_coerce importingVersion)"

text \<open>
  Section 4.2 of the specification, \<open>isCompatible\<close>: greater than or equal under
  semantic-version precedence, major first, then minor, then patch.
\<close>

definition spec_precedence_ge :: "SemVer \<Rightarrow> SemVer \<Rightarrow> bool" where
  "spec_precedence_ge a b =
     (major b < major a
      \<or> (major a = major b
          \<and> (minor b < minor a \<or> (minor a = minor b \<and> patch b \<le> patch a))))"

text \<open>The versions whose components are at most \<^verbatim>\<open>MAX_SAFE_INTEGER\<close>.\<close>

definition safe_version :: "SemVer \<Rightarrow> bool" where
  "safe_version v = (major v \<le> MAX_SAFE_INTEGER \<and> minor v \<le> MAX_SAFE_INTEGER
                     \<and> patch v \<le> MAX_SAFE_INTEGER)"

section \<open>Properties of the connection cache\<close>

lemma diffTime_neg_iff: "diffTime c u < 0 \<longleftrightarrow> c < u"
  by (simp add: diffTime_def)

lemma cacheConnections_other:
  "R \<notin> set (map (\<lambda>call. fst (snd call)) calls) \<Longrightarrow> cacheConnections calls cache R = cache R"
  by (induction calls arbitrary: cache) (auto simp: cacheConnection_def)

lemma getCachedConnection_stored:
  assumes "cache R = Some entry" and "date_or_epoch t \<le> updatedAt entry"
  shows "getCachedConnection R t cache = (Value (connection entry), cache)"
  using assms by (simp add: getCachedConnection_def diffTime_neg_iff date_or_epoch_def)

text \<open>
  C2. After \<open>store(R, H)\<close> at time \<open>now\<close>, and any later stores for identifiers other
  than \<open>R\<close>, a lookup of \<open>R\<close> with a reference timestamp at or before \<open>now\<close> (an absent
  timestamp counting as the epoch) returns \<open>H\<close>.
\<close>

theorem store_then_lookup:
  assumes "date_or_epoch t \<le> now"
    and "R \<notin> set (map (\<lambda>call. fst (snd call)) later)"
  shows "fst (getCachedConnection R t
            (cacheConnections later (cacheConnection now R H cache))) = Value H"
proof -
  have "cacheConnections later (cacheConnection now R H cache) R
          = Some \<lparr>connection = H, updatedAt = now\<rparr>"
    using assms(2) by (simp add: cacheConnections_other cacheConnection_def)
  then have "getCachedConnection R t (cacheConnections later (cacheConnection now R H cache))
      = (Value H, cacheConnections later (cacheConnection now R H cache))"
    using assms(1) by (simp add: getCachedConnection_stored)
  then show ?thesis by simp
qed

theorem store_then_lookup_witness:
  "fst (getCachedConnection ''ds1'' (Some 1000)
      (cacheConnections [(3000, ''ds2'', ''B'')]
         (cacheConnection 2000 ''ds1'' ''A'' Map.empty))) = Value ''A''"
  using store_then_lookup [of "Some 1000" 2000 "''ds1''" "[(3000, ''ds2'', ''B'')]" "''A''" Map.empty]
  by (simp add: date_or_epoch_def)

text \<open>
  C3. If \<open>R\<close> has an entry and the reference timestamp is strictly after the entry's
  \<open>updatedAt\<close> (its caching time), the difference in seconds is negative and the lookup
  returns null, not the handle.
\<close>

theorem stale_lookup_null:
  assumes "cache R = Some entry" and "updatedAt entry < date_or_epoch t"
  shows "diffTime (updatedAt entry) (date_or_epoch t) < 0
       \<and> fst (getCachedConnection R t cache) = Null
       \<and> absent (fst (getCachedConnection R t cache))"
  using assms by (simp add: getCachedConnection_def diffTime_neg_iff absent_def date_or_epoch_def)

theorem stale_lookup_null_witness:
  "diffTime 2000 (date_or_epoch (Some 2001)) < 0
   \<and> fst (getCachedConnection ''ds1'' (Some 2001)
        (cacheConnection 2000 ''ds1'' ''A'' Map.empty)) = Null"
  using stale_lookup_null [of "cacheConnection 2000 ''ds1'' ''A'' Map.empty" "''ds1''"
      "\<lparr>connection = ''A'', updatedAt = 2000\<rparr>" "Some 2001"]
  by (simp add: cacheConnection_def date_or_epoch_def)

text \<open>
  C4. A lookup leaves the cache as it was, whatever it returns; so after a stale lookup
  (reference time after the caching time \<open>c\<close>) that returned null, a lookup with a
  reference time at or before \<open>c\<close> still returns the stored handle.
\<close>

theorem lookup_keeps_cache:
  "snd (getCachedConnection R t cache) = cache
   \<and> (cache R = Some entry \<and> updatedAt entry < date_or_epoch t1 \<and> date_or_epoch t2 \<le> updatedAt entry
        \<longrightarrow> fst (getCachedConnection R t1 cache) = Null
          \<and> fst (getCachedConnection R t2 (snd (getCachedConnection R t1 cache)))
              = Value (connection entry))"
  by (simp add: getCachedConnection_def diffTime_neg_iff date_or_epoch_def Let_def
      split: option.splits)

theorem lookup_keeps_cache_witness:
  "fst (getCachedConnection ''ds1'' (Some 2500) (cacheConnection 2000 ''ds1'' ''A'' Map.empty)) = Null
   \<and> fst (getCachedConnection ''ds1'' (Some 1500)
        (snd (getCachedConnection ''ds1'' (Some 2500)
           (cacheConnection 2000 ''ds1'' ''A'' Map.empty)))) = Value ''A''"
  using lookup_keeps_cache [of "''ds1''" "Some 2500" "cacheConnection 2000 ''ds1'' ''A'' Map.empty"
      "\<lparr>connection = ''A'', updatedAt = 2000\<rparr>" "Some 2500" "Some 1500"]
  by (simp add: cacheConnection_def date_or_epoch_def getCachedConnection_def diffTime_neg_iff)

text \<open>
  C6. A second store for the same identifier replaces the first entry: the cache is
  the one the second store alone would give, and a lookup with a reference time at or
  before the second store returns the second handle, not the first.
\<close>

theorem store_overwrites:
  assumes "date_or_epoch t \<le> now2"
  shows "cacheConnection now2 R H2 (cacheConnection now1 R H1 cache)
           = cacheConnection now2 R H2 cache
       \<and> fst (getCachedConnection R t
            (cacheConnection now2 R H2 (cacheConnection now1 R H1 cache))) = Value H2
       \<and> (H1 \<noteq> H2 \<longrightarrow> fst (getCachedConnection R t
            (cacheConnection now2 R H2 (cacheConnection now1 R H1 cache))) \<noteq> Value H1)"
  using assms
  by (simp add: cacheConnection_def getCachedConnection_def diffTime_neg_iff date_or_epoch_def
      Let_def split: option.splits)

theorem store_overwrites_witness:
  "fst (getCachedConnection ''ds1'' (Some 2000)
      (cacheConnection 2000 ''ds1'' ''B'' (cacheConnection 1000 ''ds1'' ''A'' Map.empty)))
     = Value ''B''
   \<and> fst (getCachedConnection ''ds1'' (Some 2000)
      (cacheConnection 2000 ''ds1'' ''B'' (cacheConnection 1000 ''ds1'' ''A'' Map.empty)))
     \<noteq> Value ''A''"
  using store_overwrites [of "Some 2000" 2000 "''ds1''" "''B''" 1000 "''A''" Map.empty]
  by (simp add: date_or_epoch_def cacheConnection_def getCachedConnection_def diffTime_neg_iff)

text \<open>
  C7. For an identifier that no store was ever executed for (the cache starts empty and
  every store so far was for another identifier), a lookup returns null or undefined for
  every reference timestamp, absent ones included.
\<close>

theorem never_stored_absent:
  assumes "R \<notin> set (map (\<lambda>call. fst (snd call)) calls)"
  shows "absent (fst (getCachedConnection R t (cacheConnections calls Map.empty)))"
proof -
  have "cacheConnections calls Map.empty R = None"
    using assms by (simp add: cacheConnections_other)
  then show ?thesis
    by (simp add: getCachedConnection_def absent_def Let_def)
qed

theorem never_stored_absent_witness:
  "absent (fst (getCachedConnection ''ds9'' None
      (cacheConnections [(1000, ''ds1'', ''A''), (2000, ''ds2'', ''B'')] Map.empty)))
   \<and> absent (fst (getCachedConnection ''ds9'' (Some 5)
      (cacheConnections [(1000, ''ds1'', ''A''), (2000, ''ds2'', ''B'')] Map.empty)))"
  using never_stored_absent [of "''ds9''" "[(1000, ''ds1'', ''A''), (2000, ''ds2'', ''B'')]" None]
    never_stored_absent [of "''ds9''" "[(1000, ''ds1'', ''A''), (2000, ''ds2'', ''B'')]" "Some 5"]
  by simp

text \<open>
  C10. A store for \<open>R\<close> leaves the entry (handle and caching time, or the lack of an
  entry) of every other identifier as it was.
\<close>

theorem store_frame:
  assumes "R' \<noteq> R"
  shows "cacheConnection now R H cache R' = cache R'"
  using assms by (simp add: cacheConnection_def)

theorem store_frame_witness:
  "cacheConnection 3000 ''ds2'' ''B'' (cacheConnection 2000 ''ds1'' ''A'' Map.empty) ''ds1''
     = Some \<lparr>connection = ''A'', updatedAt = 2000\<rparr>"
  using store_frame [of "''ds1''" "''ds2''" 3000 "''B''" "cacheConnection 2000 ''ds1'' ''A'' Map.empty"]
  by (simp add: cacheConnection_def)

section \<open>Properties of the dotted-version comparison\<close>

lemmas number_eval = Number_def trim_js_def is_js_space_def StrDecimalLiteral_def
  StrUnsignedDecimalLiteral_def NonDecimalIntegerLiteral_def is_digit_def is_digit_of_def
  digits_value_def digit_value_def number_value_def round_to_double_def bit_length.simps

lemmas version_eval = isVersionGreaterThanOrEqual_def compare_parts.simps part_or_zero_def

lemmas spec_version_eval = spec_compareDottedVersions_def spec_segments_def
  spec_strip_suffix_def spec_segment_value_def zero_padded_def

lemma str_split_not_Nil: "str_split sep s \<noteq> []"
  by (induction s) (auto split: list.splits)

lemma hd_str_split: "hd (str_split sep s) = takeWhile (\<lambda>c. c \<noteq> sep) s"
proof (induction s)
  case Nil
  then show ?case by simp
next
  case (Cons c cs)
  then show ?case
    using str_split_not_Nil [of sep cs] by (cases "str_split sep cs") auto
qed

lemma str_split_segment_subset:
  "seg \<in> set (str_split sep s) \<Longrightarrow> set seg \<subseteq> set s - {sep}"
proof (induction s arbitrary: seg)
  case Nil
  then show ?case by simp
next
  case (Cons c cs)
  show ?case
  proof (cases "c = sep")
    case True
    with Cons show ?thesis by auto
  next
    case False
    obtain p ps where ps: "str_split sep cs = p # ps"
      using str_split_not_Nil [of sep cs] by (cases "str_split sep cs") auto
    with False Cons.prems have "seg = c # p \<or> seg \<in> set ps" by auto
    then show ?thesis
    proof
      assume "seg = c # p"
      moreover have "set p \<subseteq> set cs - {sep}" using Cons.IH [of p] ps by simp
      ultimately show ?thesis using False by auto
    next
      assume "seg \<in> set ps"
      then have "set seg \<subseteq> set cs - {sep}" using Cons.IH [of seg] ps by simp
      then show ?thesis by auto
    qed
  qed
qed

text \<open>
  The strings \<^verbatim>\<open>Number\<close> is applied to contain neither a dot nor a minus sign.
\<close>

lemma segment_chars:
  assumes "seg \<in> set (str_split CHR ''.'' (hd (str_split CHR ''-'' v)))"
  shows "CHR ''.'' \<notin> set seg \<and> CHR ''-'' \<notin> set seg"
proof -
  have "set seg \<subseteq> set (takeWhile (\<lambda>c. c \<noteq> CHR ''-'') v) - {CHR ''.''}"
    using str_split_segment_subset [OF assms] by (simp add: hd_str_split)
  moreover have "CHR ''-'' \<notin> set (takeWhile (\<lambda>c. c \<noteq> CHR ''-'') v)"
    by (auto dest: set_takeWhileD)
  ultimately show ?thesis by auto
qed

lemma digit_not_space: "is_digit c \<Longrightarrow> \<not> is_js_space c"
  by (auto simp: is_digit_def is_js_space_def)

lemma trim_js_digits:
  assumes "list_all is_digit s"
  shows "trim_js s = s"
proof (cases s)
  case Nil
  then show ?thesis by (simp add: trim_js_def)
next
  case (Cons c cs)
  then have "\<not> is_js_space (hd s)" using assms by (simp add: digit_not_space)
  then have 1: "dropWhile is_js_space s = s" using Cons by simp
  have "rev s \<noteq> []" using Cons by simp
  moreover have "\<not> is_js_space (hd (rev s))"
    using assms Cons by (metis digit_not_space hd_rev last_in_set list.distinct(1) list_all_iff)
  ultimately have "dropWhile is_js_space (rev s) = rev s"
    by (cases "rev s") auto
  with 1 show ?thesis by (simp add: trim_js_def)
qed

lemma StrDecimalLiteral_digits:
  assumes "list_all is_digit s" and "s \<noteq> []"
  shows "StrDecimalLiteral s = Some (MV (digits_value 10 s))"
proof -
  obtain c cs where s: "s = c # cs" using assms(2) by (cases s) auto
  have c: "is_digit c" using assms(1) s by simp
  have "c \<noteq> CHR ''+''" using c by (auto simp: is_digit_def)
  moreover have "s \<noteq> ''Infinity''" using c s by (auto simp: is_digit_def)
  moreover have "takeWhile is_digit s = s" "dropWhile is_digit s = []"
    using assms(1) by (simp_all add: list_all_iff)
  ultimately show ?thesis
    using assms(2) s by (simp add: StrDecimalLiteral_def StrUnsignedDecimalLiteral_def)
qed

lemma Number_digits:
  assumes "list_all is_digit s" and "s \<noteq> []"
  shows "Number s = round_to_double (digits_value 10 s)"
  using assms
  by (simp add: Number_def trim_js_digits StrDecimalLiteral_digits number_value_def)

lemma Number_empty: "Number [] = Finite 0"
  by (simp add: Number_def trim_js_def)

lemma round_to_double_not_NaN: "round_to_double n \<noteq> NaN"
  by (simp add: round_to_double_def Let_def)

lemma bit_length_2_53: "bit_length 9007199254740992 = 54"
  by (simp add: bit_length.simps)

lemma round_to_double_exact:
  assumes "n \<le> 2 ^ 53"
  shows "round_to_double n = Finite n"
proof (cases "n < 2 ^ 53")
  case True
  then show ?thesis by (simp add: round_to_double_def)
next
  case False
  with assms have "n = 2 ^ 53" by simp
  then show ?thesis by (simp add: round_to_double_def bit_length_2_53 Let_def)
qed

lemma plain_segment_coerce:
  assumes "plain_segment seg"
  shows "(case Number seg of NaN \<Rightarrow> Finite 0 | x \<Rightarrow> x) = Finite (spec_segment_value seg)"
proof (cases "Number seg = NaN")
  case True
  have "\<not> (seg \<noteq> [] \<and> list_all is_digit seg)"
  proof
    assume "seg \<noteq> [] \<and> list_all is_digit seg"
    then have "Number seg = round_to_double (digits_value 10 seg)"
      by (simp add: Number_digits)
    with True show False by (simp add: round_to_double_not_NaN)
  qed
  then show ?thesis using True by (auto simp: spec_segment_value_def)
next
  case False
  with assms have d: "list_all is_digit seg" and le: "digits_value 10 seg \<le> 2 ^ 53"
    by (auto simp: plain_segment_def)
  show ?thesis
  proof (cases "seg = []")
    case True
    then show ?thesis by (simp add: Number_empty spec_segment_value_def)
  next
    case False
    then have "Number seg = Finite (digits_value 10 seg)"
      using d le by (simp add: Number_digits round_to_double_exact)
    then show ?thesis using d False by (simp add: spec_segment_value_def)
  qed
qed

lemma part_or_zero_plain:
  assumes "list_all plain_segment segs"
  shows "part_or_zero (map Number segs) i = Finite (nth_or_zero (map spec_segment_value segs) i)"
proof (cases "i < length segs")
  case True
  then have "plain_segment (segs ! i)" using assms by (simp add: list_all_length)
  from plain_segment_coerce [OF this] True show ?thesis
    by (simp add: part_or_zero_def nth_or_zero_def)
next
  case False
  then show ?thesis by (simp add: part_or_zero_def nth_or_zero_def)
qed

lemma zero_padded_nth:
  assumes "i < n" and "length xs \<le> n"
  shows "zero_padded n xs ! i = nth_or_zero xs i"
  using assms by (auto simp: zero_padded_def nth_or_zero_def nth_append)

lemma length_zero_padded: "length xs \<le> n \<Longrightarrow> length (zero_padded n xs) = n"
  by (simp add: zero_padded_def)

lemma compare_parts_walk:
  assumes a: "\<And>j. part_or_zero p1 j = Finite (nth_or_zero a j)"
    and b: "\<And>j. part_or_zero p2 j = Finite (nth_or_zero b j)"
    and la: "length p1 = length a" and lb: "length p2 = length b"
  shows "compare_parts p1 p2 i =
           first_difference_gt (drop i (zero_padded (max (length a) (length b)) a))
                               (drop i (zero_padded (max (length a) (length b)) b))"
  using a b la lb
proof (induction p1 p2 i rule: compare_parts.induct)
  case (1 v1Parts v2Parts i)
  let ?n = "max (length a) (length b)"
  show ?case
  proof (cases "i < ?n")
    case True
    have da: "drop i (zero_padded ?n a) = nth_or_zero a i # drop (Suc i) (zero_padded ?n a)"
      using True by (simp add: Cons_nth_drop_Suc [symmetric] length_zero_padded zero_padded_nth)
    have db: "drop i (zero_padded ?n b) = nth_or_zero b i # drop (Suc i) (zero_padded ?n b)"
      using True by (simp add: Cons_nth_drop_Suc [symmetric] length_zero_padded zero_padded_nth)
    have lt: "i < max (length v1Parts) (length v2Parts)" using True "1.prems" by simp
    show ?thesis
    proof (cases "nth_or_zero a i = nth_or_zero b i")
      case True
      then have "compare_parts v1Parts v2Parts i = compare_parts v1Parts v2Parts (i + 1)"
        using lt "1.prems"(1,2) by (subst compare_parts.simps) simp
      also have "\<dots> = first_difference_gt (drop (i + 1) (zero_padded ?n a))
                                            (drop (i + 1) (zero_padded ?n b))"
        using "1.IH" [OF lt refl refl _ _ "1.prems"] True "1.prems"(1,2) by simp
      finally show ?thesis using True da db by simp
    next
      case False
      then show ?thesis
        using lt "1.prems"(1,2) da db by (subst compare_parts.simps) auto
    qed
  next
    case False
    then have "\<not> i < max (length v1Parts) (length v2Parts)" using "1.prems" by simp
    then have "compare_parts v1Parts v2Parts i = True"
      by (subst compare_parts.simps) simp
    moreover have "drop i (zero_padded ?n a) = []"
      using False by (simp add: length_zero_padded not_less)
    ultimately show ?thesis by simp
  qed
qed

lemma isVersionGreaterThanOrEqual_plain:
  assumes "plain_version v1" and "plain_version v2"
  shows "isVersionGreaterThanOrEqual (Some v1) (Some v2)
           = Inr (spec_compareDottedVersions (Some v1) v2)"
proof (cases "v1 = []")
  case True
  then show ?thesis
    by (simp add: isVersionGreaterThanOrEqual_def spec_compareDottedVersions_def)
next
  case False
  let ?s1 = "str_split CHR ''.'' (hd (str_split CHR ''-'' v1))"
  let ?s2 = "str_split CHR ''.'' (hd (str_split CHR ''-'' v2))"
  have seg1: "spec_segments v1 = map spec_segment_value ?s1"
    and seg2: "spec_segments v2 = map spec_segment_value ?s2"
    by (simp_all add: spec_segments_def spec_strip_suffix_def hd_str_split)
  have "compare_parts (map Number ?s1) (map Number ?s2) 0 =
          first_difference_gt
            (drop 0 (zero_padded (max (length (spec_segments v1)) (length (spec_segments v2)))
                       (spec_segments v1)))
            (drop 0 (zero_padded (max (length (spec_segments v1)) (length (spec_segments v2)))
                       (spec_segments v2)))"
    using assms
    by (intro compare_parts_walk) (simp_all add: seg1 seg2 part_or_zero_plain plain_version_def)
  then show ?thesis
    using False
    by (simp add: isVersionGreaterThanOrEqual_def spec_compareDottedVersions_def Let_def)
qed

text \<open>
  What \<^verbatim>\<open>Number\<close> makes of segments that are not plain strings of decimal digits:
  exponents, other bases, surrounding white space, a plus sign and \<^verbatim>\<open>Infinity\<close> are
  read as numbers, and a digit string above \<open>2^53\<close> is rounded to a double.
\<close>

lemma Number_other_notations:
  "Number ''1e3'' = Finite 1000"
  "Number ''0x10'' = Finite 16"
  "Number '' 7'' = Finite 7"
  "Number ''+7'' = Finite 7"
  "Number ''Infinity'' = PosInfinity"
  "Number ''9007199254740993'' = Finite 9007199254740992"
  "Number ''v2'' = NaN"
  by (simp_all add: number_eval)

text \<open>
  C1, as stated, fails: the segments \<open>9007199254740992\<close> and \<open>9007199254740993\<close> are
  different integers, the first the smaller, so the algorithm of the specification
  returns false; as doubles both are \<open>2^53\<close>, the loop finds no difference and the
  function returns true.
\<close>

theorem compareDottedVersions_counterexample:
  "isVersionGreaterThanOrEqual (Some ''9007199254740992'') (Some ''9007199254740993'') = Inr True
   \<and> spec_compareDottedVersions (Some ''9007199254740992'') ''9007199254740993'' = False"
  by (simp add: number_eval version_eval spec_version_eval)

text \<open>
  C1, amended. For version strings whose segments (after the \<^verbatim>\<open>-suffix\<close> is
  stripped) are strings of decimal digits denoting at most \<open>2^53\<close>, or strings
  \<^verbatim>\<open>Number\<close> does not read as a number, \<^verbatim>\<open>isVersionGreaterThanOrEqual\<close> returns
  the result of the algorithm of the specification; an absent first version gives
  false; and the three examples of the specification hold.
\<close>

theorem compareDottedVersions_plain:
  "(plain_version v1 \<and> plain_version v2 \<longrightarrow>
      isVersionGreaterThanOrEqual (Some v1) (Some v2)
        = Inr (spec_compareDottedVersions (Some v1) v2))
   \<and> isVersionGreaterThanOrEqual None (Some v2) = Inr (spec_compareDottedVersions None v2)
   \<and> isVersionGreaterThanOrEqual (Some ''2.24.1'') (Some ''2.24.0'') = Inr True
   \<and> isVersionGreaterThanOrEqual (Some ''2.23.9'') (Some ''2.24.0'') = Inr False
   \<and> isVersionGreaterThanOrEqual (Some ''2.24'') (Some ''2.24.0'') = Inr True"
proof -
  have "isVersionGreaterThanOrEqual None (Some v2) = Inr (spec_compareDottedVersions None v2)"
    by (simp add: isVersionGreaterThanOrEqual_def spec_compareDottedVersions_def)
  moreover have "isVersionGreaterThanOrEqual (Some ''2.24.1'') (Some ''2.24.0'') = Inr True"
    by (simp add: number_eval version_eval)
  moreover have "isVersionGreaterThanOrEqual (Some ''2.23.9'') (Some ''2.24.0'') = Inr False"
    by (simp add: number_eval version_eval)
  moreover have "isVersionGreaterThanOrEqual (Some ''2.24'') (Some ''2.24.0'') = Inr True"
    by (simp add: number_eval version_eval)
  ultimately show ?thesis
    using isVersionGreaterThanOrEqual_plain [of v1 v2] by blast
qed

theorem compareDottedVersions_plain_witness:
  "plain_version ''3.x.7-beta.2'' \<and> plain_version ''3.0.10''
   \<and> isVersionGreaterThanOrEqual (Some ''3.x.7-beta.2'') (Some ''3.0.10'') = Inr False
   \<and> spec_compareDottedVersions (Some ''3.x.7-beta.2'') ''3.0.10'' = False"
proof -
  have p: "plain_version ''3.x.7-beta.2'' \<and> plain_version ''3.0.10''"
    by (simp add: plain_version_def plain_segment_def number_eval)
  have s: "spec_compareDottedVersions (Some ''3.x.7-beta.2'') ''3.0.10'' = False"
    by (simp add: spec_version_eval is_digit_def digits_value_def digit_value_def)
  from compareDottedVersions_plain [of "''3.x.7-beta.2''" "''3.0.10''"] p s
  show ?thesis by simp
qed

lemma number_or_zero_not_NaN: "number_or_zero seg \<noteq> NaN"
  by (simp add: number_or_zero_def)

lemma part_or_zero_Number:
  "part_or_zero (map Number segs) i = nth_or_zero_js (map number_or_zero segs) i"
  by (simp add: part_or_zero_def nth_or_zero_js_def number_or_zero_def split: js_number.splits)

lemma nth_or_zero_js_not_NaN: "nth_or_zero_js (map number_or_zero segs) i \<noteq> NaN"
  by (simp add: nth_or_zero_js_def number_or_zero_not_NaN)

lemma js_less_differ:
  "a \<noteq> NaN \<Longrightarrow> b \<noteq> NaN \<Longrightarrow> a \<noteq> b \<longleftrightarrow> js_less a b \<or> js_less b a"
  by (cases a; cases b) auto

lemma js_less_asym: "js_less a b \<Longrightarrow> \<not> js_less b a"
  by (cases a; cases b) auto

lemma zero_padded_js_nth:
  assumes "i < n" and "length xs \<le> n"
  shows "zero_padded_js n xs ! i = nth_or_zero_js xs i"
  using assms by (auto simp: zero_padded_js_def nth_or_zero_js_def nth_append)

lemma length_zero_padded_js: "length xs \<le> n \<Longrightarrow> length (zero_padded_js n xs) = n"
  by (simp add: zero_padded_js_def)

lemma compare_parts_walk_js:
  assumes a: "\<And>j. part_or_zero p1 j = nth_or_zero_js a j"
    and b: "\<And>j. part_or_zero p2 j = nth_or_zero_js b j"
    and na: "\<And>j. nth_or_zero_js a j \<noteq> NaN" and nb: "\<And>j. nth_or_zero_js b j \<noteq> NaN"
    and la: "length p1 = length a" and lb: "length p2 = length b"
  shows "compare_parts p1 p2 i =
           first_difference_js (drop i (zero_padded_js (max (length a) (length b)) a))
                               (drop i (zero_padded_js (max (length a) (length b)) b))"
  using a b la lb
proof (induction p1 p2 i rule: compare_parts.induct)
  case (1 v1Parts v2Parts i)
  let ?n = "max (length a) (length b)"
  let ?x = "nth_or_zero_js a i" and ?y = "nth_or_zero_js b i"
  show ?case
  proof (cases "i < ?n")
    case True
    have da: "drop i (zero_padded_js ?n a) = ?x # drop (Suc i) (zero_padded_js ?n a)"
      using True
      by (simp add: Cons_nth_drop_Suc [symmetric] length_zero_padded_js zero_padded_js_nth)
    have db: "drop i (zero_padded_js ?n b) = ?y # drop (Suc i) (zero_padded_js ?n b)"
      using True
      by (simp add: Cons_nth_drop_Suc [symmetric] length_zero_padded_js zero_padded_js_nth)
    have lt: "i < max (length v1Parts) (length v2Parts)" using True "1.prems" by simp
    have p: "part_or_zero v1Parts i = ?x" "part_or_zero v2Parts i = ?y"
      using "1.prems"(1,2) by simp_all
    show ?thesis
    proof (cases "?x = ?y")
      case same: True
      then have nl: "\<not> js_less ?x ?y" "\<not> js_less ?y ?x"
        using js_less_asym [of ?x ?y] by auto
      have "compare_parts v1Parts v2Parts i = compare_parts v1Parts v2Parts (i + 1)"
        using lt p nl by (subst compare_parts.simps) (simp add: Let_def)
      also have "\<dots> = first_difference_js (drop (i + 1) (zero_padded_js ?n a))
                                            (drop (i + 1) (zero_padded_js ?n b))"
        using "1.IH" [OF lt refl refl _ _ "1.prems"] p nl by simp
      finally show ?thesis using same da db by simp
    next
      case False
      then have d: "js_less ?x ?y \<or> js_less ?y ?x"
        using js_less_differ [OF na nb, of i i] by simp
      show ?thesis
      proof (cases "js_less ?x ?y")
        case True
        then have "compare_parts v1Parts v2Parts i = False"
          using lt p by (subst compare_parts.simps) (simp add: Let_def)
        moreover have "\<not> js_less ?y ?x" using True js_less_asym by blast
        ultimately show ?thesis using False da db by simp
      next
        case nl: False
        with d have g: "js_less ?y ?x" by simp
        then have "compare_parts v1Parts v2Parts i = True"
          using lt p nl by (subst compare_parts.simps) (simp add: Let_def)
        then show ?thesis using False g da db by simp
      qed
    qed
  next
    case False
    then have "\<not> i < max (length v1Parts) (length v2Parts)" using "1.prems" by simp
    then have "compare_parts v1Parts v2Parts i = True"
      by (subst compare_parts.simps) simp
    moreover have "drop i (zero_padded_js ?n a) = []"
      using False by (simp add: length_zero_padded_js not_less)
    ultimately show ?thesis by simp
  qed
qed

lemma compare_walk_refinement:
  "isVersionGreaterThanOrEqual v1 (Some v2) = Inr (lenient_compareDottedVersions v1 v2)"
proof (cases v1)
  case None
  then show ?thesis
    by (simp add: isVersionGreaterThanOrEqual_def lenient_compareDottedVersions_def)
next
  case (Some s1)
  show ?thesis
  proof (cases "s1 = []")
    case True
    then show ?thesis using Some
      by (simp add: isVersionGreaterThanOrEqual_def lenient_compareDottedVersions_def)
  next
    case False
    let ?s1 = "str_split CHR ''.'' (hd (str_split CHR ''-'' s1))"
    let ?s2 = "str_split CHR ''.'' (hd (str_split CHR ''-'' v2))"
    have seg1: "lenient_segments s1 = map number_or_zero ?s1"
      and seg2: "lenient_segments v2 = map number_or_zero ?s2"
      by (simp_all add: lenient_segments_def spec_strip_suffix_def hd_str_split)
    have "compare_parts (map Number ?s1) (map Number ?s2) 0 =
            first_difference_js
              (drop 0 (zero_padded_js (max (length (lenient_segments s1)) (length (lenient_segments v2)))
                         (lenient_segments s1)))
              (drop 0 (zero_padded_js (max (length (lenient_segments s1)) (length (lenient_segments v2)))
                         (lenient_segments v2)))"
      by (intro compare_parts_walk_js)
        (simp_all add: seg1 seg2 part_or_zero_Number nth_or_zero_js_not_NaN)
    then show ?thesis
      using False Some
      by (simp add: isVersionGreaterThanOrEqual_def lenient_compareDottedVersions_def Let_def)
  qed
qed

lemma Number_zero: "Number ''0'' = Finite 0"
  by (simp add: number_eval)

lemma same_or_zeroed_value:
  "same_or_zeroed seg seg' \<Longrightarrow> number_or_zero seg' = number_or_zero seg"
  by (auto simp: same_or_zeroed_def number_or_zero_def Number_zero)

lemma zeroed_version_segments:
  assumes "zeroed_version v v'"
  shows "lenient_segments v' = lenient_segments v"
proof -
  have "list_all2 (\<lambda>s t. number_or_zero t = number_or_zero s)
          (str_split CHR ''.'' (spec_strip_suffix v)) (str_split CHR ''.'' (spec_strip_suffix v'))"
    using assms unfolding zeroed_version_def
    by (rule list_all2_mono) (simp add: same_or_zeroed_value)
  then have "map number_or_zero (str_split CHR ''.'' (spec_strip_suffix v'))
           = map number_or_zero (str_split CHR ''.'' (spec_strip_suffix v))"
    by (induction rule: list_all2_induct) simp_all
  then show ?thesis by (simp add: lenient_segments_def)
qed

text \<open>
  C8, as stated, fails: \<^verbatim>\<open>Infinity\<close> and \<^verbatim>\<open>1e3\<close> are not strings of digits (the
  specification's coercion gives them 0), yet the code compares them as infinity and as
  1000, not as 0: against \<^verbatim>\<open>5\<close> each gives true, where the segment \<^verbatim>\<open>0\<close> gives false.
\<close>

theorem degrade_to_zero_counterexample:
  "spec_segment_value ''Infinity'' = 0 \<and> spec_segment_value ''1e3'' = 0
   \<and> part_or_zero (map Number [''Infinity'']) 0 = PosInfinity
   \<and> part_or_zero (map Number [''1e3'']) 0 = Finite 1000
   \<and> isVersionGreaterThanOrEqual (Some ''Infinity'') (Some ''5'') = Inr True
   \<and> isVersionGreaterThanOrEqual (Some ''1e3'') (Some ''5'') = Inr True
   \<and> isVersionGreaterThanOrEqual (Some ''0'') (Some ''5'') = Inr False"
  by (simp add: number_eval version_eval spec_segment_value_def)

text \<open>
  C8, amended. On every pair of strings (and with the first version absent)
  \<^verbatim>\<open>isVersionGreaterThanOrEqual\<close> raises nothing and returns a boolean, namely the
  result of the comparison walk on the values \<^verbatim>\<open>Number\<close> gives the segments, a segment
  that \<^verbatim>\<open>Number\<close> cannot read (\<^verbatim>\<open>NaN\<close>) counting as 0; and such a segment is compared
  exactly as the segment \<^verbatim>\<open>0\<close>: zeroing the unreadable segments of either version
  does not change the result.
\<close>

theorem isVersionGreaterThanOrEqual_lenient:
  "(\<exists>b. isVersionGreaterThanOrEqual v1 (Some v2) = Inr b)
   \<and> isVersionGreaterThanOrEqual v1 (Some v2) = Inr (lenient_compareDottedVersions v1 v2)
   \<and> (zeroed_version s1 s1' \<and> zeroed_version v2 v2' \<and> s1 \<noteq> [] \<and> s1' \<noteq> [] \<longrightarrow>
        isVersionGreaterThanOrEqual (Some s1) (Some v2)
          = isVersionGreaterThanOrEqual (Some s1') (Some v2'))"
proof -
  have "isVersionGreaterThanOrEqual (Some s1) (Some v2)
          = isVersionGreaterThanOrEqual (Some s1') (Some v2')"
    if "zeroed_version s1 s1'" "zeroed_version v2 v2'" "s1 \<noteq> []" "s1' \<noteq> []"
    using that
    by (simp add: compare_walk_refinement lenient_compareDottedVersions_def
        zeroed_version_segments)
  then show ?thesis
    using compare_walk_refinement [of v1 v2] by blast
qed

theorem isVersionGreaterThanOrEqual_lenient_witness:
  "zeroed_version ''2.x.1-rc'' ''2.0.1'' \<and> zeroed_version ''2.beta.0'' ''2.0.0''
   \<and> isVersionGreaterThanOrEqual (Some ''2.x.1-rc'') (Some ''2.beta.0'') = Inr True
   \<and> isVersionGreaterThanOrEqual (Some ''2.0.1'') (Some ''2.0.0'') = Inr True
   \<and> lenient_compareDottedVersions (Some ''2.x.1-rc'') ''2.beta.0'' = True"
proof -
  have z: "zeroed_version ''2.x.1-rc'' ''2.0.1''" "zeroed_version ''2.beta.0'' ''2.0.0''"
    by (simp_all add: zeroed_version_def same_or_zeroed_def spec_strip_suffix_def number_eval)
  have e: "isVersionGreaterThanOrEqual (Some ''2.0.1'') (Some ''2.0.0'') = Inr True"
    by (simp add: number_eval version_eval)
  from isVersionGreaterThanOrEqual_lenient [of "Some ''2.x.1-rc''" "''2.beta.0''"
      "''2.x.1-rc''" "''2.0.1''" "''2.0.0''"] z e
  show ?thesis by auto
qed

section \<open>Properties of the semantic-version helpers\<close>

lemmas semver_eval = extractMajorVersion_def semver_valid_def semver_coerce_def
  coerce_major.simps coerce_next_def semver_parse_main_def numeric_identifier_def format_def
  show_nat.simps is_digit_def digits_value_def digit_value_def MAX_SAFE_COMPONENT_LENGTH_def
  MAX_SAFE_INTEGER_def checkVersionCompatibility_def semver_gte_def semver_compare_def
  compareMain_def compareIdentifiers_def char_of_eq_iff

lemma of_char_digit_char: "d < 10 \<Longrightarrow> (of_char (char_of (48 + d :: nat)) :: nat) = 48 + d"
  by simp

lemma is_digit_digit_char: "d < 10 \<Longrightarrow> is_digit (char_of (48 + d :: nat))"
  by (simp add: is_digit_def)

lemma digit_value_digit_char: "d < 10 \<Longrightarrow> digit_value (char_of (48 + d :: nat)) = d"
  by (simp add: digit_value_def)

lemma show_nat_not_Nil: "show_nat n \<noteq> []"
  by (subst show_nat.simps) simp

lemma show_nat_digits: "list_all is_digit (show_nat n)"
proof (induction n rule: show_nat.induct)
  case (1 n)
  show ?case
  proof (cases "n < 10")
    case True
    then show ?thesis by (subst show_nat.simps) (simp add: is_digit_digit_char)
  next
    case False
    then show ?thesis
      using "1.IH" by (subst show_nat.simps) (simp add: is_digit_digit_char)
  qed
qed

lemma digits_value_snoc:
  "digits_value base (xs @ [c]) = digits_value base xs * base + digit_value c"
  by (simp add: digits_value_def)

lemma digits_value_show_nat: "digits_value 10 (show_nat n) = n"
proof (induction n rule: show_nat.induct)
  case (1 n)
  show ?case
  proof (cases "n < 10")
    case True
    then show ?thesis
      by (subst show_nat.simps) (simp add: digits_value_def digit_value_digit_char)
  next
    case False
    then have "digits_value 10 (show_nat n)
        = digits_value 10 (show_nat (n div 10)) * 10 + n mod 10"
      by (subst show_nat.simps) (simp add: digits_value_snoc digit_value_digit_char)
    with False "1.IH" show ?thesis by simp
  qed
qed

lemma hd_show_nat: "0 < n \<Longrightarrow> hd (show_nat n) \<noteq> CHR ''0''"
proof (induction n rule: show_nat.induct)
  case (1 n)
  show ?case
  proof (cases "n < 10")
    case True
    have "(of_char (char_of (48 + n)) :: nat) \<noteq> of_char CHR ''0''"
      using True "1.prems" by simp
    then have "char_of (48 + n) \<noteq> CHR ''0''" by metis
    then show ?thesis using True by (subst show_nat.simps) simp
  next
    case False
    then have "0 < n div 10" by simp
    with "1.IH" False have "hd (show_nat (n div 10)) \<noteq> CHR ''0''" by simp
    then show ?thesis
      using False show_nat_not_Nil [of "n div 10"] by (subst show_nat.simps) simp
  qed
qed

lemma show_nat_0: "show_nat 0 = ''0''"
  by (subst show_nat.simps) (simp add: char_of_eq_iff)

lemma numeric_identifier_show_nat: "numeric_identifier (show_nat n)"
proof (cases "n = 0")
  case True
  then show ?thesis by (simp add: numeric_identifier_def show_nat_0)
next
  case False
  then show ?thesis
    by (simp add: numeric_identifier_def show_nat_not_Nil show_nat_digits hd_show_nat)
qed

lemma length_show_nat: "n < 10 ^ k \<Longrightarrow> 0 < k \<Longrightarrow> length (show_nat n) \<le> k"
proof (induction n arbitrary: k rule: show_nat.induct)
  case (1 n)
  show ?case
  proof (cases "n < 10")
    case True
    then show ?thesis using "1.prems" by (subst show_nat.simps) simp
  next
    case False
    then obtain j where k: "k = Suc j" using "1.prems" by (cases k) auto
    have "0 < j" using False "1.prems" k by (cases j) auto
    moreover have "n div 10 < 10 ^ j" using "1.prems" k by (simp add: less_mult_imp_div_less)
    ultimately have "length (show_nat (n div 10)) \<le> j" using "1.IH" False by simp
    then show ?thesis using False k by (subst show_nat.simps) simp
  qed
qed

lemma length_show_nat_safe:
  assumes "n \<le> MAX_SAFE_INTEGER"
  shows "length (show_nat n) \<le> MAX_SAFE_COMPONENT_LENGTH"
proof -
  have "n < 10 ^ 16" using assms by (simp add: MAX_SAFE_INTEGER_def)
  then show ?thesis
    using length_show_nat [of n 16] by (simp add: MAX_SAFE_COMPONENT_LENGTH_def)
qed

lemma dot_not_digit: "\<not> is_digit CHR ''.''"
  by (simp add: is_digit_def)

lemma takeWhile_digits_dot:
  "list_all is_digit ds \<Longrightarrow> takeWhile is_digit (ds @ CHR ''.'' # rest) = ds"
  by (induction ds) (simp_all add: dot_not_digit)

lemma dropWhile_digits_dot:
  "list_all is_digit ds \<Longrightarrow> dropWhile is_digit (ds @ CHR ''.'' # rest) = CHR ''.'' # rest"
  by (induction ds) (simp_all add: dot_not_digit)

lemma takeWhile_digits_all: "list_all is_digit ds \<Longrightarrow> takeWhile is_digit ds = ds"
  by (induction ds) simp_all

lemma dropWhile_digits_all: "list_all is_digit ds \<Longrightarrow> dropWhile is_digit ds = []"
  by (induction ds) simp_all

lemma coerce_major_component:
  assumes "list_all is_digit ds" and "ds \<noteq> []" and "length ds \<le> MAX_SAFE_COMPONENT_LENGTH"
  shows "coerce_major (ds @ CHR ''.'' # rest) = Some (ds, CHR ''.'' # rest)"
proof -
  obtain c cs where ds: "ds = c # cs" using assms(2) by (cases ds) auto
  have tw: "takeWhile is_digit (c # cs @ CHR ''.'' # rest) = ds"
    and dw: "dropWhile is_digit (c # cs @ CHR ''.'' # rest) = CHR ''.'' # rest"
    using takeWhile_digits_dot [OF assms(1), of rest] dropWhile_digits_dot [OF assms(1), of rest]
    by (simp_all add: ds)
  have "is_digit c" using assms(1) ds by simp
  then have "coerce_major (c # cs @ CHR ''.'' # rest) = Some (ds, CHR ''.'' # rest)"
    using assms(3) unfolding coerce_major.simps tw dw by simp
  then show ?thesis by (simp add: ds)
qed

lemma coerce_next_component:
  assumes "list_all is_digit ds" and "ds \<noteq> []" and "length ds \<le> MAX_SAFE_COMPONENT_LENGTH"
  shows "coerce_next (CHR ''.'' # ds @ CHR ''.'' # rest) = Some (ds, CHR ''.'' # rest)"
  using assms by (simp add: coerce_next_def takeWhile_digits_dot dropWhile_digits_dot)

lemma coerce_next_last:
  assumes "list_all is_digit ds" and "ds \<noteq> []" and "length ds \<le> MAX_SAFE_COMPONENT_LENGTH"
  shows "coerce_next (CHR ''.'' # ds) = Some (ds, [])"
  using assms by (simp add: coerce_next_def takeWhile_digits_all dropWhile_digits_all)

lemma semver_parse_main_safe: "semver_parse_main ma mi pa = Some v \<Longrightarrow> safe_version v"
  by (auto simp: semver_parse_main_def safe_version_def split: if_splits)

lemma semver_coerce_safe: "semver_coerce s = Some v \<Longrightarrow> safe_version v"
proof -
  assume "semver_coerce s = Some v"
  then obtain ma mi pa where "semver_parse_main ma mi pa = Some v"
    unfolding semver_coerce_def by (auto split: option.splits)
  then show "safe_version v" by (rule semver_parse_main_safe)
qed

lemma semver_parse_main_show:
  assumes "safe_version v"
  shows "semver_parse_main (show_nat (major v)) (show_nat (minor v)) (show_nat (patch v)) = Some v"
  using assms
  by (simp add: semver_parse_main_def numeric_identifier_show_nat digits_value_show_nat
      safe_version_def)

lemma semver_coerce_format:
  assumes "safe_version v"
  shows "semver_coerce (format v) = Some v"
proof -
  let ?ma = "show_nat (major v)" and ?mi = "show_nat (minor v)" and ?pa = "show_nat (patch v)"
  have l: "length ?ma \<le> MAX_SAFE_COMPONENT_LENGTH" "length ?mi \<le> MAX_SAFE_COMPONENT_LENGTH"
    "length ?pa \<le> MAX_SAFE_COMPONENT_LENGTH"
    using assms by (simp_all add: safe_version_def length_show_nat_safe)
  have f: "format v = ?ma @ CHR ''.'' # (?mi @ CHR ''.'' # ?pa)"
    by (simp add: format_def)
  have 1: "coerce_major (format v) = Some (?ma, CHR ''.'' # (?mi @ CHR ''.'' # ?pa))"
    unfolding f using l(1) by (intro coerce_major_component) (simp_all add: show_nat_digits show_nat_not_Nil)
  have 2: "coerce_next (CHR ''.'' # (?mi @ CHR ''.'' # ?pa)) = Some (?mi, CHR ''.'' # ?pa)"
    using l(2) by (intro coerce_next_component) (simp_all add: show_nat_digits show_nat_not_Nil)
  have 3: "coerce_next (CHR ''.'' # ?pa) = Some (?pa, [])"
    using l(3) by (intro coerce_next_last) (simp_all add: show_nat_digits show_nat_not_Nil)
  show ?thesis
    using semver_parse_main_show [OF assms] by (simp add: semver_coerce_def 1 2 3)
qed

lemma format_inj:
  assumes "safe_version a" and "safe_version b" and "format a = format b"
  shows "a = b"
proof -
  have "Some a = semver_coerce (format a)"
    using semver_coerce_format [OF assms(1)] by simp
  also have "\<dots> = semver_coerce (format b)"
    by (simp only: assms(3))
  also have "\<dots> = Some b"
    by (rule semver_coerce_format [OF assms(2)])
  finally show ?thesis by simp
qed

lemma semver_compare_ge:
  assumes "safe_version a" and "safe_version b"
  shows "0 \<le> semver_compare a b \<longleftrightarrow> spec_precedence_ge a b"
proof (cases "format b = format a")
  case True
  then have "a = b" using format_inj [OF assms] by simp
  with True show ?thesis by (simp add: semver_compare_def spec_precedence_ge_def)
next
  case False
  then show ?thesis
    by (auto simp: semver_compare_def compareMain_def compareIdentifiers_def
        spec_precedence_ge_def)
qed

text \<open>
  The examples of the specification and of the package's documentation.
\<close>

lemma extractMajorVersion_examples:
  "extractMajorVersion ''v2.1'' = Some ''2.1.0''"
  "extractMajorVersion ''2.1.3-beta'' = Some ''2.1.3''"
  "extractMajorVersion ''42.6.7.9.3-alpha'' = Some ''42.6.7''"
  "extractMajorVersion ''10000000000000000.4.7.4'' = Some ''4.7.4''"
  "extractMajorVersion ''9999999999999999.4.7.4'' = None"
  "extractMajorVersion ''abc'' = None"
  by (simp_all add: semver_eval)

text \<open>
  C9. Whenever \<^verbatim>\<open>extractMajorVersion\<close> returns a string, applying it to that string
  returns the same string.
\<close>

theorem extractMajorVersion_idempotent:
  assumes "extractMajorVersion v = Some s"
  shows "extractMajorVersion s = Some s"
proof -
  from assms obtain sv where sv: "semver_coerce v = Some sv" and s: "s = format sv"
    by (auto simp: extractMajorVersion_def semver_valid_def split: option.splits)
  have "safe_version sv" using sv by (rule semver_coerce_safe)
  then have "semver_coerce s = Some sv" unfolding s by (rule semver_coerce_format)
  then show ?thesis by (simp add: extractMajorVersion_def semver_valid_def s)
qed

theorem extractMajorVersion_idempotent_witness:
  "extractMajorVersion ''v2.1'' = Some ''2.1.0'' \<and> extractMajorVersion ''2.1.0'' = Some ''2.1.0''"
proof -
  have e: "extractMajorVersion ''v2.1'' = Some ''2.1.0''"
    by (simp add: semver_eval)
  from extractMajorVersion_idempotent [OF e] e show ?thesis by simp
qed

text \<open>
  C5. For all strings, \<^verbatim>\<open>checkVersionCompatibility\<close> returns true exactly when both
  the running and the importing version coerce and the coerced running version is
  greater than or equal to the coerced importing version in the order by major, then
  minor, then patch; when both coerce it returns that comparison as a boolean; the two
  examples of the specification hold.
\<close>

theorem checkVersionCompatibility_precedence:
  "(checkVersionCompatibility running importing = Inr True \<longleftrightarrow>
      (\<exists>a b. semver_coerce running = Some a \<and> semver_coerce importing = Some b
             \<and> spec_precedence_ge a b))
   \<and> (semver_coerce running = Some a \<and> semver_coerce importing = Some b \<longrightarrow>
        checkVersionCompatibility running importing = Inr (spec_precedence_ge a b))
   \<and> checkVersionCompatibility ''2.25.0'' ''2.24.1'' = Inr True
   \<and> checkVersionCompatibility ''2.24.0'' ''2.24.1'' = Inr False"
proof -
  have both: "checkVersionCompatibility running importing = Inr (spec_precedence_ge x y)"
    if r: "semver_coerce running = Some x" and i: "semver_coerce importing = Some y" for x y
    using semver_compare_ge [OF semver_coerce_safe [OF r] semver_coerce_safe [OF i]] r i
    by (simp add: checkVersionCompatibility_def semver_gte_def)
  have iff: "checkVersionCompatibility running importing = Inr True \<longleftrightarrow>
      (\<exists>a b. semver_coerce running = Some a \<and> semver_coerce importing = Some b
             \<and> spec_precedence_ge a b)"
  proof (cases "semver_coerce running")
    case None
    then show ?thesis by (simp add: checkVersionCompatibility_def semver_gte_def)
  next
    case r: (Some x)
    show ?thesis
    proof (cases "semver_coerce importing")
      case None
      then show ?thesis using r by (simp add: checkVersionCompatibility_def semver_gte_def)
    next
      case i: (Some y)
      from both [OF r i] r i show ?thesis by simp
    qed
  qed
  have "checkVersionCompatibility ''2.25.0'' ''2.24.1'' = Inr True"
    by (simp add: semver_eval)
  moreover have "checkVersionCompatibility ''2.24.0'' ''2.24.1'' = Inr False"
    by (simp add: semver_eval)
  ultimately show ?thesis using iff both by blast
qed

theorem checkVersionCompatibility_precedence_witness:
  "semver_coerce ''v2.25'' = Some \<lparr>major = 2, minor = 25, patch = 0\<rparr>
   \<and> semver_coerce ''2.24.1-beta'' = Some \<lparr>major = 2, minor = 24, patch = 1\<rparr>
   \<and> checkVersionCompatibility ''v2.25'' ''2.24.1-beta'' = Inr True"
proof -
  have c: "semver_coerce ''v2.25'' = Some \<lparr>major = 2, minor = 25, patch = 0\<rparr>"
    "semver_coerce ''2.24.1-beta'' = Some \<lparr>major = 2, minor = 24, patch = 1\<rparr>"
    by (simp_all add: semver_eval)
  from checkVersionCompatibility_precedence [of "''v2.25''" "''2.24.1-beta''"
      "\<lparr>major = 2, minor = 25, patch = 0\<rparr>" "\<lparr>major = 2, minor = 24, patch = 1\<rparr>"] c
  show ?thesis by (simp add: spec_precedence_ge_def)
qed

end
